theory Spec2Isabelle
  imports
    Main
    "HOL-Library.Sublist"
    "HOL-Library.AList"
    "HOL-Library.Char_ord"
    "HOL-Library.List_Lexorder"
begin

section \<open>JavaScript strings\<close>

text \<open>
  A JavaScript string is a sequence of UTF-16 code units. The model covers the strings
  whose code units lie in U+0000..U+00FF: a \<^typ>\<open>string\<close> is the list of
  these code units, one \<^typ>\<open>char\<close> each. On this range \<open>toLowerCase\<close>
  works unit by unit and the default comparison of \<open>Array.prototype.sort\<close> is the
  lexicographic order of the code units, which is the order of \<^typ>\<open>char list\<close>.
\<close>

text \<open>White space and line terminators, as \<open>String.prototype.trim\<close> strips them:
  TAB, LF, VT, FF, CR, SPACE and NBSP, by their code units.\<close>

definition isWhiteSpace :: "char \<Rightarrow> bool" where
  "isWhiteSpace c \<longleftrightarrow> (of_char c :: nat) \<in> {9, 10, 11, 12, 13, 32, 160}"

definition trim :: "string \<Rightarrow> string" where
  "trim s = rev (dropWhile isWhiteSpace (rev (dropWhile isWhiteSpace s)))"

text \<open>\<open>toLowerCase\<close> on one code unit: A..Z and the upper-case letters of Latin-1
  (U+00C0..U+00DE without the multiplication sign U+00D7) move up by 32.\<close>

definition lowerChar :: "char \<Rightarrow> char" where
  "lowerChar c =
     (let n = (of_char c :: nat) in
      if (65 \<le> n \<and> n \<le> 90) \<or> (192 \<le> n \<and> n \<le> 222 \<and> n \<noteq> 215)
      then char_of (n + 32) else c)"

definition toLowerCase :: "string \<Rightarrow> string" where
  "toLowerCase s = map lowerChar s"

text \<open>\<open>s.includes(q)\<close>: \<open>q\<close> occurs in \<open>s\<close> as a contiguous run; the empty
  string occurs in every string.\<close>

fun includesStr :: "string \<Rightarrow> string \<Rightarrow> bool" where
  "includesStr [] q = (q = [])"
| "includesStr (c # s) q = (prefix q (c # s) \<or> includesStr s q)"

section \<open>The search view\<close>

text \<open>The view's \<open>Device\<close> interface; \<open>basedOn\<close> is optional, and \<open>None\<close> is
  the JavaScript value \<open>undefined\<close>.\<close>

record Device =
  category :: string
  name :: string
  basedOn :: "string option"

text \<open>Exceptions: a \<open>TypeError\<close> of the language itself, or an exception thrown by
  a library call (the browser driver, the file system), named by its message.\<close>

datatype error = TypeError | Thrown string

text \<open>Truthiness of a value that is a string or \<open>undefined\<close>: \<open>undefined\<close> and
  the empty string are falsy.\<close>

definition truthy :: "string option \<Rightarrow> bool" where
  "truthy v = (case v of None \<Rightarrow> False | Some s \<Rightarrow> s \<noteq> [])"

text \<open>A method call on a value that may be \<open>undefined\<close> throws a \<open>TypeError\<close>
  there.\<close>

definition call_trim :: "string option \<Rightarrow> error + string" where
  "call_trim v = (case v of None \<Rightarrow> Inl TypeError | Some s \<Rightarrow> Inr (trim s))"

definition call_toLowerCase :: "string option \<Rightarrow> error + string" where
  "call_toLowerCase v = (case v of None \<Rightarrow> Inl TypeError | Some s \<Rightarrow> Inr (toLowerCase s))"

definition excludedCategory :: string where
  "excludedCategory = ''Announced devices that have not yet been released''"

definition releasedDevices :: "Device list \<Rightarrow> Device list" where
  "releasedDevices devices = filter (\<lambda>device. category device \<noteq> excludedCategory) devices"

text \<open>The third operand of the filter's disjunction,
  \<open>device.basedOn && device.basedOn.trim() && device.basedOn.toLowerCase().includes(searchLower)\<close>,
  coerced to a boolean; \<open>&&\<close> evaluates its right operand only when the left one is
  truthy.\<close>

definition basedOnMatches :: "string \<Rightarrow> Device \<Rightarrow> error + bool" where
  "basedOnMatches searchLower device =
     (if \<not> truthy (basedOn device) then Inr False
      else case call_trim (basedOn device) of
        Inl e \<Rightarrow> Inl e
      | Inr t \<Rightarrow>
          if \<not> truthy (Some t) then Inr False
          else case call_toLowerCase (basedOn device) of
            Inl e \<Rightarrow> Inl e
          | Inr l \<Rightarrow> Inr (includesStr l searchLower))"

text \<open>The callback of the second \<open>filter\<close>.\<close>

definition matchesSearch :: "string \<Rightarrow> Device \<Rightarrow> error + bool" where
  "matchesSearch searchText device =
     (let searchLower = toLowerCase searchText in
      if \<not> truthy (Some searchText) then Inr True
      else if includesStr (toLowerCase (name device)) searchLower then Inr True
      else if includesStr (toLowerCase (category device)) searchLower then Inr True
      else basedOnMatches searchLower device)"

text \<open>\<open>Array.prototype.filter\<close> with a callback that may throw: the first exception
  ends the call.\<close>

fun filterE :: "('a \<Rightarrow> error + bool) \<Rightarrow> 'a list \<Rightarrow> error + 'a list" where
  "filterE p [] = Inr []"
| "filterE p (x # xs) =
     (case p x of
        Inl e \<Rightarrow> Inl e
      | Inr b \<Rightarrow>
          (case filterE p xs of
             Inl e \<Rightarrow> Inl e
           | Inr ys \<Rightarrow> Inr (if b then x # ys else ys)))"

definition filtered :: "string \<Rightarrow> Device list \<Rightarrow> error + Device list" where
  "filtered searchText devices = filterE (matchesSearch searchText) (releasedDevices devices)"

subsection \<open>Grouping by category\<close>

text \<open>
  The accumulator of \<open>reduce\<close> is an ordinary object literal \<open>{}\<close>: its own
  properties, in insertion order, are an association list, and a property it does not own
  is looked up in \<open>Object.prototype\<close>.
\<close>

definition objectPrototypeKeys :: "string list" where
  "objectPrototypeKeys =
     [''constructor'', ''__proto__'', ''hasOwnProperty'', ''isPrototypeOf'',
      ''propertyIsEnumerable'', ''toLocaleString'', ''toString'', ''valueOf'',
      ''__defineGetter__'', ''__defineSetter__'', ''__lookupGetter__'', ''__lookupSetter__'']"

text \<open>What \<open>acc[key]\<close> reads: an array the object owns, a member inherited from
  \<open>Object.prototype\<close> (a function or the prototype object: truthy, without a
  \<open>push\<close> method), or \<open>undefined\<close>.\<close>

datatype property = Undefined | OwnArray "Device list" | Inherited

definition getProperty :: "(string \<times> Device list) list \<Rightarrow> string \<Rightarrow> property" where
  "getProperty acc key =
     (case map_of acc key of
        Some ds \<Rightarrow> OwnArray ds
      | None \<Rightarrow> if key \<in> set objectPrototypeKeys then Inherited else Undefined)"

text \<open>The reducer: \<open>if (!acc[c]) acc[c] = []; acc[c].push(device)\<close>. An undefined
  property is created at the end of the own properties; an inherited member is truthy, so
  nothing is created and the call of its missing \<open>push\<close> throws.\<close>

definition groupStep ::
  "(string \<times> Device list) list \<Rightarrow> Device \<Rightarrow> error + (string \<times> Device list) list" where
  "groupStep acc device =
     (case getProperty acc (category device) of
        Undefined \<Rightarrow> Inr (acc @ [(category device, [device])])
      | OwnArray ds \<Rightarrow> Inr (AList.update (category device) (ds @ [device]) acc)
      | Inherited \<Rightarrow> Inl TypeError)"

fun reduceE :: "('b \<Rightarrow> 'a \<Rightarrow> error + 'b) \<Rightarrow> 'b \<Rightarrow> 'a list \<Rightarrow> error + 'b" where
  "reduceE f acc [] = Inr acc"
| "reduceE f acc (x # xs) =
     (case f acc x of Inl e \<Rightarrow> Inl e | Inr acc' \<Rightarrow> reduceE f acc' xs)"

definition groupedDevices ::
  "string \<Rightarrow> Device list \<Rightarrow> error + (string \<times> Device list) list" where
  "groupedDevices searchText devices =
     (case filtered searchText devices of
        Inl e \<Rightarrow> Inl e
      | Inr fs \<Rightarrow> reduceE groupStep [] fs)"

text \<open>\<open>Object.keys(groupedDevices).sort()\<close>: the own keys, sorted by code units. (The
  order in which \<open>Object.keys\<close> lists them does not survive the sort.)\<close>

definition sortedCategories :: "(string \<times> Device list) list \<Rightarrow> string list" where
  "sortedCategories grouped = sort (map fst grouped)"

subsection \<open>Rendering\<close>

datatype action = CopyToClipboard "string option" | OpenInBrowser string

record ListItem =
  title :: string
  subtitle :: string
  accessories :: "string list"
  actions :: "action list"

record ListSection =
  sectionTitle :: string
  items :: "ListItem list"

text \<open>\<open>device.basedOn || ""\<close>.\<close>

definition subtitleOf :: "Device \<Rightarrow> string" where
  "subtitleOf device =
     (case basedOn device of
        None \<Rightarrow> []
      | Some s \<Rightarrow> if truthy (Some s) then s else [])"

text \<open>The guard of the copy action, \<open>device.basedOn && device.basedOn.trim()\<close>, as a
  boolean.\<close>

definition copyOffered :: "Device \<Rightarrow> error + bool" where
  "copyOffered device =
     (if \<not> truthy (basedOn device) then Inr False
      else case call_trim (basedOn device) of
        Inl e \<Rightarrow> Inl e
      | Inr t \<Rightarrow> Inr (truthy (Some t)))"

text \<open>The children of the \<open>ActionPanel\<close>; \<open>url\<close> is the constant
  \<open>DEVICE_LIST_URL\<close> of \<open>lib/constants\<close>.\<close>

definition itemActions :: "string \<Rightarrow> Device \<Rightarrow> error + action list" where
  "itemActions url device =
     (case copyOffered device of
        Inl e \<Rightarrow> Inl e
      | Inr b \<Rightarrow>
          Inr ((if b then [CopyToClipboard (basedOn device)] else []) @ [OpenInBrowser url]))"

definition renderItem :: "string \<Rightarrow> string \<Rightarrow> Device \<Rightarrow> error + ListItem" where
  "renderItem url cat device =
     (case itemActions url device of
        Inl e \<Rightarrow> Inl e
      | Inr as \<Rightarrow>
          Inr \<lparr>title = name device, subtitle = subtitleOf device,
               accessories = [cat], actions = as\<rparr>)"

text \<open>\<open>Array.prototype.map\<close> with a callback that may throw.\<close>

fun mapE :: "('a \<Rightarrow> error + 'b) \<Rightarrow> 'a list \<Rightarrow> error + 'b list" where
  "mapE f [] = Inr []"
| "mapE f (x # xs) =
     (case f x of
        Inl e \<Rightarrow> Inl e
      | Inr y \<Rightarrow> (case mapE f xs of Inl e \<Rightarrow> Inl e | Inr ys \<Rightarrow> Inr (y # ys)))"

text \<open>One \<open>List.Section\<close>: \<open>groupedDevices[category].map(...)\<close>; calling \<open>map\<close> on
  a property that is not an own array throws.\<close>

definition renderSection ::
  "string \<Rightarrow> (string \<times> Device list) list \<Rightarrow> string \<Rightarrow> error + ListSection" where
  "renderSection url grouped cat =
     (case getProperty grouped cat of
        OwnArray ds \<Rightarrow>
          (case mapE (renderItem url cat) ds of
             Inl e \<Rightarrow> Inl e
           | Inr its \<Rightarrow> Inr \<lparr>sectionTitle = cat, items = its\<rparr>)
      | Undefined \<Rightarrow> Inl TypeError
      | Inherited \<Rightarrow> Inl TypeError)"

text \<open>The component: the sections of the rendered list for a dataset and a query.\<close>

definition Command :: "string \<Rightarrow> Device list \<Rightarrow> string \<Rightarrow> error + ListSection list" where
  "Command url devices searchText =
     (case groupedDevices searchText devices of
        Inl e \<Rightarrow> Inl e
      | Inr grouped \<Rightarrow> mapE (renderSection url grouped) (sortedCategories grouped))"

subsection \<open>What the view is meant to compute\<close>

text \<open>The properties of the view are stated against the following descriptions, which
  do not follow the code: a query is a case-insensitive substring of a field when its
  lower-cased form occurs in the lower-cased field.\<close>

definition caseInsensitiveSubstring :: "string \<Rightarrow> string \<Rightarrow> bool" where
  "caseInsensitiveSubstring q s \<longleftrightarrow> sublist (toLowerCase q) (toLowerCase s)"

text \<open>A value is present and not blank.\<close>

definition nonBlank :: "string option \<Rightarrow> bool" where
  "nonBlank v = (case v of None \<Rightarrow> False | Some s \<Rightarrow> trim s \<noteq> [])"

definition recordMatches :: "string \<Rightarrow> Device \<Rightarrow> bool" where
  "recordMatches q d \<longleftrightarrow>
     q = [] \<or> caseInsensitiveSubstring q (name d) \<or> caseInsensitiveSubstring q (category d)
     \<or> (case basedOn d of
           None \<Rightarrow> False
         | Some b \<Rightarrow> trim b \<noteq> [] \<and> caseInsensitiveSubstring q b)"

text \<open>The object built by the reducer from the records \<open>xs\<close>: one own property for
  each category of \<open>xs\<close>, holding the records of that category in their order in
  \<open>xs\<close>.\<close>

definition groupsOf :: "Device list \<Rightarrow> (string \<times> Device list) list \<Rightarrow> bool" where
  "groupsOf xs acc \<longleftrightarrow>
     distinct (map fst acc) \<and>
     (\<forall>c. map_of acc c =
        (if c \<in> category ` set xs then Some (filter (\<lambda>d. category d = c) xs) else None))"

definition itemOf :: "string \<Rightarrow> string \<Rightarrow> Device \<Rightarrow> ListItem" where
  "itemOf url cat d =
     \<lparr>title = name d,
      subtitle = (case basedOn d of None \<Rightarrow> [] | Some s \<Rightarrow> s),
      accessories = [cat],
      actions = (if nonBlank (basedOn d) then [CopyToClipboard (basedOn d)] else [])
                @ [OpenInBrowser url]\<rparr>"

definition sectionsOf :: "string \<Rightarrow> Device list \<Rightarrow> ListSection list" where
  "sectionsOf url fs =
     map (\<lambda>c. \<lparr>sectionTitle = c,
                items = map (itemOf url c) (filter (\<lambda>d. category d = c) fs)\<rparr>)
       (sorted_list_of_set (category ` set fs))"


text \<open>The example dataset of the search property.\<close>

definition exampleDevices :: "Device list" where
  "exampleDevices =
     [\<lparr>category = ''Amps'', name = ''Brit 800'', basedOn = Some ''Marshall JCM800''\<rparr>,
      \<lparr>category = ''Amps'', name = ''Twin'', basedOn = Some []\<rparr>,
      \<lparr>category = ''Announced devices that have not yet been released'',
       name = ''Secret'', basedOn = Some ''X''\<rparr>]"

section \<open>The extractor\<close>

subsection \<open>The rendered document\<close>

text \<open>A DOM node is a text node or an element with its tag name, its class list and its
  child nodes. A document is the list of its top-level nodes.\<close>

datatype node = Text string | Element string "string list" "node list"

fun isElement :: "node \<Rightarrow> bool" where
  "isElement (Text s) = False"
| "isElement (Element tag classes children) = True"

fun textContent :: "node \<Rightarrow> string" where
  "textContent (Text s) = s"
| "textContent (Element tag classes children) = concat (map textContent children)"

text \<open>The elements below a node, in document order, the node itself excluded.\<close>

fun descendants :: "node \<Rightarrow> node list" where
  "descendants (Text s) = []"
| "descendants (Element tag classes children) =
     concat (map (\<lambda>child. (if isElement child then [child] else []) @ descendants child)
       children)"

text \<open>The lists of child nodes of the elements of a forest, at any depth.\<close>

fun childLists :: "node list \<Rightarrow> node list list" where
  "childLists [] = []"
| "childLists (Text s # rest) = childLists rest"
| "childLists (Element tag classes children # rest) =
     children # childLists children @ childLists rest"

text \<open>Every list of siblings of the document: its top-level nodes, and the child nodes
  of each of its elements, at any depth.\<close>

definition siblingLists :: "node list \<Rightarrow> node list list" where
  "siblingLists document = document # childLists document"

text \<open>The selectors of the scraper have the shape \<open>tag.class1.class2\<close>.\<close>

datatype selector = Selector string "string list"

fun matches :: "selector \<Rightarrow> node \<Rightarrow> bool" where
  "matches (Selector t cs) (Text s) = False"
| "matches (Selector t cs) (Element tag classes children) =
     (tag = t \<and> set cs \<subseteq> set classes)"

definition querySelectorAll :: "selector \<Rightarrow> node \<Rightarrow> node list" where
  "querySelectorAll sel n = filter (matches sel) (descendants n)"

text \<open>The elements of the document, in document order: what a \<open>querySelectorAll\<close> on
  the document ranges over.\<close>

definition documentElements :: "node list \<Rightarrow> node list" where
  "documentElements ns =
     concat (map (\<lambda>n. (if isElement n then [n] else []) @ descendants n) ns)"

definition h2 :: selector where
  "h2 = Selector ''h2'' []"

definition rowSelector :: selector where
  "rowSelector = Selector ''div'' [''sc-97391185-0'', ''vdqnr'']"

definition cellSelector :: selector where
  "cellSelector = Selector ''div'' [''sc-eb3d5477-0'', ''ijbjQB'']"

subsection \<open>The in-page extraction\<close>

text \<open>\<open>document.querySelectorAll("h2")\<close>, each heading with the chain of its
  \<open>nextElementSibling\<close>s: the elements after it among the children of its parent.\<close>

fun headings :: "node list \<Rightarrow> (node \<times> node list) list" where
  "headings [] = []"
| "headings (Text s # rest) = headings rest"
| "headings (Element tag classes children # rest) =
     (if matches h2 (Element tag classes children)
      then [(Element tag classes children, filter isElement rest)] else [])
     @ headings children @ headings rest"

text \<open>The body of \<open>dataRows.forEach\<close>. The extractor's \<open>Device\<close> has a
  \<open>basedOn\<close> that is always present.\<close>

definition extractRow :: "string \<Rightarrow> node \<Rightarrow> Device list" where
  "extractRow cat row =
     (case querySelectorAll cellSelector row of
        c0 # c1 # cells \<Rightarrow>
          (let name = trim (textContent c0);
               basedOn = trim (textContent c1)
           in if name \<noteq> [] then [\<lparr>category = cat, name = name, basedOn = Some basedOn\<rparr>]
              else [])
      | _ \<Rightarrow> [])"

text \<open>The \<open>while\<close> loop over the siblings; the list is empty when \<open>current\<close> is
  \<open>null\<close>.\<close>

fun walkSiblings :: "string \<Rightarrow> node list \<Rightarrow> Device list" where
  "walkSiblings cat [] = []"
| "walkSiblings cat (current # rest) =
     (if matches h2 current then []
      else let dataRows = querySelectorAll rowSelector current in
        if length dataRows > 0 then concat (map (extractRow cat) dataRows)
        else walkSiblings cat rest)"

text \<open>The body of \<open>headings.forEach\<close>.\<close>

definition scrapeHeading :: "node \<times> node list \<Rightarrow> Device list" where
  "scrapeHeading hs =
     (let cat = trim (textContent (fst hs)) in
      if cat = [] then [] else walkSiblings cat (snd hs))"

definition extractDevices :: "node list \<Rightarrow> Device list" where
  "extractDevices document = concat (map scrapeHeading (headings document))"

subsection \<open>One run of the script\<close>

text \<open>
  The outcomes of the external calls of one run: \<open>None\<close> is a call that returns,
  \<open>Some e\<close> one that throws \<open>e\<close>. \<open>pageDocument\<close> is what \<open>page.evaluate\<close>
  meets: an exception, or the rendered document on which the callback runs.
\<close>

record Env =
  launch :: "error option"
  newPage :: "error option"
  goto :: "error option"
  waitForSelector :: "error option"
  pageDocument :: "error + node list"
  close :: "error option"
  existsSync :: bool
  mkdirSync :: "error option"
  writeFileSync :: "error option"

text \<open>The effects of a run, in order. \<open>WriteFileSync ds\<close> is the call that writes the
  records \<open>ds\<close> to \<open>lib/devices.json\<close>. The texts of the console are not modelled:
  a message is named by its place in the script, and \<open>Summary\<close> stands for the lines of
  the summary by category.\<close>

datatype message = Launching | Fetching | Scraped nat | Wrote nat | Summary

datatype event =
    ConsoleLog message
  | ConsoleWarn
  | ConsoleError error
  | BrowserClose
  | MkdirSync
  | WriteFileSync "Device list"

text \<open>The \<open>try\<close> block of \<open>scrapeDeviceList\<close>. A rejection of
  \<open>waitForSelector\<close> is caught on the spot and logged as a warning.\<close>

definition tryBlock :: "Env \<Rightarrow> event list \<times> (error + Device list)" where
  "tryBlock env =
     (case newPage env of
        Some e \<Rightarrow> ([], Inl e)
      | None \<Rightarrow>
          (case goto env of
             Some e \<Rightarrow> ([ConsoleLog Fetching], Inl e)
           | None \<Rightarrow>
               (let warned = (case waitForSelector env of
                                Some e \<Rightarrow> [ConsoleWarn] | None \<Rightarrow> [])
                in case pageDocument env of
                     Inl e \<Rightarrow> (ConsoleLog Fetching # warned, Inl e)
                   | Inr document \<Rightarrow>
                       (ConsoleLog Fetching # warned, Inr (extractDevices document)))))"

text \<open>The \<open>finally\<close> block: the browser is closed on every path, and an exception of
  \<open>close\<close> replaces the outcome of the \<open>try\<close> block.\<close>

definition finallyBlock ::
  "Env \<Rightarrow> event list \<times> (error + Device list) \<Rightarrow> event list \<times> (error + Device list)" where
  "finallyBlock env r =
     (fst r @ [BrowserClose], case close env of Some e \<Rightarrow> Inl e | None \<Rightarrow> snd r)"

definition scrapeDeviceList :: "Env \<Rightarrow> event list \<times> (error + Device list)" where
  "scrapeDeviceList env =
     (case launch env of
        Some e \<Rightarrow> ([ConsoleLog Launching], Inl e)
      | None \<Rightarrow>
          (let r = finallyBlock env (tryBlock env) in (ConsoleLog Launching # fst r, snd r)))"

text \<open>\<open>main\<close>: the effects of the run and the exit status of the process, 1 after
  \<open>process.exit(1)\<close> in the \<open>catch\<close> block, 0 otherwise.\<close>

definition main :: "Env \<Rightarrow> event list \<times> nat" where
  "main env =
     (case scrapeDeviceList env of
        (tr, Inl e) \<Rightarrow> (tr @ [ConsoleError e], 1)
      | (tr, Inr devices) \<Rightarrow>
          (let tr1 = tr @ [ConsoleLog (Scraped (length devices))] in
           case (if existsSync env then None else mkdirSync env) of
             Some e \<Rightarrow> (tr1 @ [MkdirSync, ConsoleError e], 1)
           | None \<Rightarrow>
               (let tr2 = tr1 @ (if existsSync env then [] else [MkdirSync])
                            @ [WriteFileSync devices]
                in case writeFileSync env of
                     Some e \<Rightarrow> (tr2 @ [ConsoleError e], 1)
                   | None \<Rightarrow>
                       (tr2 @ [ConsoleLog (Wrote (length devices)), ConsoleLog Summary], 0))))"

subsection \<open>Example inputs\<close>

text \<open>A heading followed by a paragraph, the container of its rows (a header row and four
  data rows, two of them malformed) and a later container.\<close>

definition cellOf :: "string \<Rightarrow> node" where
  "cellOf s = Element ''div'' [''sc-eb3d5477-0'', ''ijbjQB''] [Text s]"

definition rowOf :: "node list \<Rightarrow> node" where
  "rowOf cells = Element ''div'' [''sc-97391185-0'', ''vdqnr''] cells"

definition exampleSiblings :: "node list" where
  "exampleSiblings =
     [Element ''p'' [] [Text ''intro''],
      Element ''div'' [''sc-aabe08f-0'', ''flgqeV'']
        [Element ''div'' [''sc-edee8d04-0'', ''cyEujK''] [Text ''Name''],
         rowOf [cellOf '' Brit 800 '', cellOf ''Marshall JCM800 '', cellOf ''1.0.0''],
         rowOf [cellOf ''Lonely''],
         rowOf [cellOf ''  '', cellOf ''Nameless''],
         rowOf [cellOf ''Twin'', cellOf '' '']],
      Element ''div'' [] [rowOf [cellOf ''Late'', cellOf ''Row'']]]"

definition exampleHeading :: node where
  "exampleHeading = Element ''h2'' [] [Text '' Guitar amps '']"

text \<open>A document with three more headings around that one: an earlier heading with a
  row of its own, and after the later container a heading directly followed by another
  heading and its rows.\<close>

definition exampleDocument :: "node list" where
  "exampleDocument =
     [Element ''html'' []
       [Element ''head'' [] [Element ''title'' [] [Text ''Device list'']],
        Element ''body'' []
          [Element ''main'' []
            ([Text ''  '',
              Element ''h2'' [] [Text ''Effects''],
              Element ''div'' [] [rowOf [cellOf ''Chorus'', cellOf ''CE-1'']],
              exampleHeading,
              Text ''  ''] @ exampleSiblings @
             [Element ''h2'' [] [Text ''Cabs''],
              Element ''h2'' [] [Text ''Mics''],
              Element ''div'' [] [rowOf [cellOf ''Ribbon 121'', cellOf ''R-121'']]])]]]"

text \<open>A run in which only the wait for a heading fails, and a run in which the page load
  fails.\<close>

definition waitFailsEnv :: Env where
  "waitFailsEnv =
     \<lparr>launch = None, newPage = None, goto = None,
      waitForSelector = Some (Thrown ''TimeoutError''),
      pageDocument = Inr [], close = None,
      existsSync = True, mkdirSync = None, writeFileSync = None\<rparr>"

definition gotoFailsEnv :: Env where
  "gotoFailsEnv =
     \<lparr>launch = None, newPage = None, goto = Some (Thrown ''net::ERR_NAME_NOT_RESOLVED''),
      waitForSelector = None,
      pageDocument = Inr [], close = None,
      existsSync = True, mkdirSync = None, writeFileSync = None\<rparr>"

section \<open>Properties of the search view\<close>

lemma includesStr_sublist: "includesStr s q \<longleftrightarrow> sublist q s"
  by (induction s) (simp_all add: sublist_Cons_right)

lemma filterE_total:
  assumes "\<And>x. x \<in> set xs \<Longrightarrow> p x = Inr (P x)"
  shows "filterE p xs = Inr (filter P xs)"
  using assms by (induction xs) simp_all

lemma mapE_total:
  assumes "\<And>x. x \<in> set xs \<Longrightarrow> f x = Inr (g x)"
  shows "mapE f xs = Inr (map g xs)"
  using assms by (induction xs) simp_all

lemma trim_Nil [simp]: "trim [] = []"
  by (simp add: trim_def)

lemma basedOnMatches_eq:
  "basedOnMatches l d =
     Inr (case basedOn d of None \<Rightarrow> False
          | Some b \<Rightarrow> trim b \<noteq> [] \<and> sublist l (toLowerCase b))"
  by (cases "basedOn d")
     (auto simp: basedOnMatches_def truthy_def call_trim_def call_toLowerCase_def
        includesStr_sublist)

lemma matchesSearch_eq: "matchesSearch q d = Inr (recordMatches q d)"
  by (auto simp: matchesSearch_def recordMatches_def caseInsensitiveSubstring_def truthy_def
      basedOnMatches_eq includesStr_sublist Let_def split: option.splits)

lemma filtered_eq: "filtered q devices = Inr (filter (recordMatches q) (releasedDevices devices))"
  unfolding filtered_def by (rule filterE_total) (rule matchesSearch_eq)

lemma groupsOf_Nil: "groupsOf [] []"
  by (simp add: groupsOf_def)

lemma groupStep_Undefined:
  assumes "groupsOf xs acc" "category d \<notin> category ` set xs"
    "category d \<notin> set objectPrototypeKeys"
  shows "groupStep acc d = Inr (acc @ [(category d, [d])])"
  using assms by (simp add: groupStep_def getProperty_def groupsOf_def)

lemma groupStep_Inherited:
  assumes "groupsOf xs acc" "category d \<notin> category ` set xs"
    "category d \<in> set objectPrototypeKeys"
  shows "groupStep acc d = Inl TypeError"
  using assms by (simp add: groupStep_def getProperty_def groupsOf_def)

lemma groupStep_Own:
  assumes "groupsOf xs acc" "category d \<in> category ` set xs"
  shows "groupStep acc d =
    Inr (AList.update (category d) (filter (\<lambda>x. category x = category d) xs @ [d]) acc)"
  using assms by (simp add: groupStep_def getProperty_def groupsOf_def)

lemma groupsOf_step:
  assumes inv: "groupsOf xs acc" and step: "groupStep acc d = Inr acc'"
  shows "groupsOf (xs @ [d]) acc'"
proof (cases "category d \<in> category ` set xs")
  case True
  with inv step have acc': "acc' =
      AList.update (category d) (filter (\<lambda>x. category x = category d) xs @ [d]) acc"
    by (simp add: groupStep_Own)
  from inv have "distinct (map fst acc')"
    unfolding acc' groupsOf_def by (simp add: distinct_update)
  moreover have "map_of acc' c =
      (if c \<in> category ` set (xs @ [d])
       then Some (filter (\<lambda>x. category x = c) (xs @ [d])) else None)" for c
    using inv True unfolding acc' groupsOf_def by (auto simp: update_conv')
  ultimately show ?thesis by (simp add: groupsOf_def)
next
  case False
  with inv step have new: "category d \<notin> set objectPrototypeKeys"
    by (cases "category d \<in> set objectPrototypeKeys") (simp_all add: groupStep_Inherited)
  with inv step False have acc': "acc' = acc @ [(category d, [d])]"
    by (simp add: groupStep_Undefined)
  from inv False have nokey: "category d \<notin> fst ` set acc"
    unfolding groupsOf_def by (metis map_of_eq_None_iff)
  with inv have "distinct (map fst acc')"
    unfolding acc' groupsOf_def by simp
  moreover have "map_of acc' c =
      (if c \<in> category ` set (xs @ [d])
       then Some (filter (\<lambda>x. category x = c) (xs @ [d])) else None)" for c
  proof -
    from False have "\<forall>x \<in> set xs. category x \<noteq> category d"
      by (metis imageI)
    then have "filter (\<lambda>x. category x = category d) xs = []"
      by (simp add: filter_empty_conv)
    then show ?thesis
      using inv False unfolding acc' groupsOf_def
      by (auto simp: map_add_def split: option.splits)
  qed
  ultimately show ?thesis by (simp add: groupsOf_def)
qed

lemma reduceE_groupsOf:
  "groupsOf xs acc \<Longrightarrow> reduceE groupStep acc ys = Inr g \<Longrightarrow> groupsOf (xs @ ys) g"
proof (induction ys arbitrary: xs acc)
  case Nil
  then show ?case by simp
next
  case (Cons y ys)
  from Cons.prems(2) obtain acc' where step: "groupStep acc y = Inr acc'"
    and rest: "reduceE groupStep acc' ys = Inr g"
    by (auto split: sum.splits)
  from Cons.prems(1) step have "groupsOf (xs @ [y]) acc'" by (rule groupsOf_step)
  from Cons.IH [OF this rest] show ?case by simp
qed

lemma reduceE_group_succeeds:
  "groupsOf xs acc \<Longrightarrow> \<forall>d \<in> set ys. category d \<notin> set objectPrototypeKeys \<Longrightarrow>
   \<exists>g. reduceE groupStep acc ys = Inr g"
proof (induction ys arbitrary: xs acc)
  case Nil
  then show ?case by simp
next
  case (Cons y ys)
  from Cons.prems obtain acc' where step: "groupStep acc y = Inr acc'"
    by (cases "category y \<in> category ` set xs")
       (auto simp: groupStep_Own groupStep_Undefined simp del: set_filter)
  from Cons.prems(1) step have "groupsOf (xs @ [y]) acc'" by (rule groupsOf_step)
  from Cons.IH [OF this] Cons.prems(2) step show ?case by simp
qed

lemma reduceE_group_fails:
  "groupsOf xs acc \<Longrightarrow> \<forall>d \<in> set xs. category d \<notin> set objectPrototypeKeys \<Longrightarrow>
   \<exists>d \<in> set ys. category d \<in> set objectPrototypeKeys \<Longrightarrow>
   reduceE groupStep acc ys = Inl TypeError"
proof (induction ys arbitrary: xs acc)
  case Nil
  then show ?case by simp
next
  case (Cons y ys)
  show ?case
  proof (cases "category y \<in> set objectPrototypeKeys")
    case True
    with Cons.prems(2) have "category y \<notin> category ` set xs" by auto
    with Cons.prems(1) True show ?thesis by (simp add: groupStep_Inherited)
  next
    case False
    with Cons.prems(3) have later: "\<exists>d \<in> set ys. category d \<in> set objectPrototypeKeys"
      by auto
    from Cons.prems(1) False obtain acc' where step: "groupStep acc y = Inr acc'"
      by (cases "category y \<in> category ` set xs")
         (auto simp: groupStep_Own groupStep_Undefined)
    from Cons.prems(1) step have inv': "groupsOf (xs @ [y]) acc'" by (rule groupsOf_step)
    from Cons.prems(2) False have "\<forall>d \<in> set (xs @ [y]). category d \<notin> set objectPrototypeKeys"
      by auto
    from Cons.IH [OF inv' this later] step show ?thesis by simp
  qed
qed

lemma groupsOf_keys: "groupsOf xs g \<Longrightarrow> set (map fst g) = category ` set xs"
proof -
  assume inv: "groupsOf xs g"
  have "fst ` set g = dom (map_of g)" by (simp add: dom_map_of_conv_image_fst)
  also from inv have "\<dots> = category ` set xs"
    by (auto simp: groupsOf_def dom_def)
  finally show ?thesis by simp
qed

lemma sortedCategories_eq:
  assumes "groupsOf xs g"
  shows "sortedCategories g = sorted_list_of_set (category ` set xs)"
proof -
  from assms have "distinct (map fst g)" by (simp add: groupsOf_def)
  then have "remdups (map fst g) = map fst g" by (rule distinct_remdups_id)
  moreover have "sorted_list_of_set (set (map fst g)) = sort (remdups (map fst g))"
    by (rule sorted_list_of_set_sort_remdups)
  ultimately have "sort (map fst g) = sorted_list_of_set (set (map fst g))"
    by (simp only:)
  with groupsOf_keys [OF assms] show ?thesis by (simp only: sortedCategories_def)
qed

lemma copyOffered_eq: "copyOffered d = Inr (nonBlank (basedOn d))"
  by (cases "basedOn d") (auto simp: copyOffered_def truthy_def call_trim_def nonBlank_def)

lemma subtitleOf_eq: "subtitleOf d = (case basedOn d of None \<Rightarrow> [] | Some s \<Rightarrow> s)"
  by (simp add: subtitleOf_def truthy_def split: option.splits)

lemma renderItem_eq: "renderItem url cat d = Inr (itemOf url cat d)"
  by (simp add: renderItem_def itemActions_def copyOffered_eq subtitleOf_eq itemOf_def)

lemma renderSection_eq:
  assumes "groupsOf xs g" "c \<in> category ` set xs"
  shows "renderSection url g c =
    Inr \<lparr>sectionTitle = c, items = map (itemOf url c) (filter (\<lambda>d. category d = c) xs)\<rparr>"
proof -
  from assms have "getProperty g c = OwnArray (filter (\<lambda>d. category d = c) xs)"
    by (simp add: getProperty_def groupsOf_def)
  moreover have "mapE (renderItem url c) ds = Inr (map (itemOf url c) ds)" for ds
    by (rule mapE_total) (rule renderItem_eq)
  ultimately show ?thesis by (simp add: renderSection_def)
qed

lemma Command_eq:
  "Command url devices q =
     (let fs = filter (recordMatches q) (releasedDevices devices) in
      if \<exists>d \<in> set fs. category d \<in> set objectPrototypeKeys then Inl TypeError
      else Inr (sectionsOf url fs))"
proof -
  define fs where "fs = filter (recordMatches q) (releasedDevices devices)"
  have fil: "filtered q devices = Inr fs" by (simp add: filtered_eq fs_def)
  show ?thesis
  proof (cases "\<exists>d \<in> set fs. category d \<in> set objectPrototypeKeys")
    case True
    have "reduceE groupStep [] fs = Inl TypeError"
      by (rule reduceE_group_fails [OF groupsOf_Nil _ True]) simp
    with True show ?thesis
      by (simp add: Command_def groupedDevices_def fil flip: fs_def)
  next
    case False
    then have "\<forall>d \<in> set fs. category d \<notin> set objectPrototypeKeys" by simp
    from reduceE_group_succeeds [OF groupsOf_Nil this]
    obtain g where g: "reduceE groupStep [] fs = Inr g" by blast
    from reduceE_groupsOf [OF groupsOf_Nil g] have inv: "groupsOf fs g" by simp
    have "mapE (renderSection url g) (sorted_list_of_set (category ` set fs)) =
        Inr (map (\<lambda>c. \<lparr>sectionTitle = c,
                items = map (itemOf url c) (filter (\<lambda>d. category d = c) fs)\<rparr>)
              (sorted_list_of_set (category ` set fs)))"
      by (rule mapE_total) (simp add: renderSection_eq [OF inv])
    with False g show ?thesis
      by (simp add: Command_def groupedDevices_def fil sortedCategories_eq [OF inv]
          sectionsOf_def flip: fs_def)
  qed
qed

lemma lowerChar_whitespace: "isWhiteSpace c \<Longrightarrow> lowerChar c = c"
  by (auto simp: isWhiteSpace_def lowerChar_def Let_def)

lemma whitespace_lowerChar: "isWhiteSpace (lowerChar c) \<Longrightarrow> lowerChar c = c"
proof (cases "lowerChar c = c")
  case True
  then show ?thesis by simp
next
  case False
  assume ws: "isWhiteSpace (lowerChar c)"
  define n where "n = (of_char c :: nat)"
  from False have rng: "(65 \<le> n \<and> n \<le> 90) \<or> (192 \<le> n \<and> n \<le> 222)"
    and low: "lowerChar c = char_of (n + 32)"
    by (auto simp: lowerChar_def Let_def n_def split: if_splits)
  have "(of_char (lowerChar c) :: nat) = (n + 32) mod 256"
    unfolding low by simp
  with rng have "(of_char (lowerChar c) :: nat) = n + 32" by auto
  with ws rng show ?thesis by (auto simp: isWhiteSpace_def)
qed

lemma toLowerCase_whitespace:
  "\<forall>c \<in> set q. isWhiteSpace c \<Longrightarrow> toLowerCase q = q"
  by (simp add: toLowerCase_def lowerChar_whitespace map_idI)

lemma toLowerCase_eq_whitespace:
  assumes "\<forall>c \<in> set q. isWhiteSpace c" "toLowerCase r = q"
  shows "r = q"
proof -
  from assms have "\<forall>c \<in> set r. isWhiteSpace (lowerChar c)"
    by (auto simp: toLowerCase_def)
  then have "map lowerChar r = r"
    by (intro map_idI) (simp add: whitespace_lowerChar)
  with assms(2) show ?thesis by (simp add: toLowerCase_def)
qed

lemma sublist_toLowerCase_whitespace:
  assumes "\<forall>c \<in> set q. isWhiteSpace c"
  shows "sublist q (toLowerCase s) \<longleftrightarrow> sublist q s"
proof
  assume "sublist q (toLowerCase s)"
  then obtain ps ss where "toLowerCase s = ps @ q @ ss" by (auto simp: sublist_def)
  then have "map lowerChar s = ps @ (q @ ss)" by (simp add: toLowerCase_def)
  then obtain ps' r where r: "s = ps' @ r" "map lowerChar r = q @ ss"
    by (metis map_eq_append_conv)
  then obtain q' ss' where "r = q' @ ss'" "map lowerChar q' = q"
    by (metis map_eq_append_conv)
  with r have s: "s = ps' @ q' @ ss'" and q': "toLowerCase q' = q"
    by (simp_all add: toLowerCase_def)
  from toLowerCase_eq_whitespace [OF assms q'] s show "sublist q s" by auto
next
  assume "sublist q s"
  then obtain ps ss where "s = ps @ q @ ss" by (auto simp: sublist_def)
  then have "toLowerCase s = toLowerCase ps @ toLowerCase q @ toLowerCase ss"
    by (simp add: toLowerCase_def)
  with toLowerCase_whitespace [OF assms] show "sublist q (toLowerCase s)" by simp
qed

lemma groupsOf_member:
  assumes "groupsOf xs g" "(c, ds) \<in> set g"
  shows "c \<in> category ` set xs \<and> ds = filter (\<lambda>d. category d = c) xs"
proof -
  from assms(1) have d: "distinct (map fst g)"
    and m: "map_of g c =
      (if c \<in> category ` set xs then Some (filter (\<lambda>d. category d = c) xs) else None)"
    by (simp_all add: groupsOf_def)
  from d assms(2) have "map_of g c = Some ds" by simp
  with m show ?thesis by (simp split: if_splits)
qed

lemma releasedDevices_category:
  "d \<in> set (releasedDevices devices) \<Longrightarrow> category d \<noteq> excludedCategory"
  by (simp add: releasedDevices_def)

lemma sectionsOf_member:
  assumes "s \<in> set (sectionsOf url fs)"
  shows "sectionTitle s \<in> category ` set fs \<and>
    items s = map (itemOf url (sectionTitle s)) (filter (\<lambda>d. category d = sectionTitle s) fs)"
proof -
  have "finite (category ` set fs)" by simp
  with assms show ?thesis unfolding sectionsOf_def by auto
qed

lemma Command_sorted_partition:
  assumes "\<forall>d \<in> set devices. category d \<notin> set objectPrototypeKeys"
  shows "\<exists>secs. Command url devices q = Inr secs
    \<and> sorted (map sectionTitle secs) \<and> distinct (map sectionTitle secs)
    \<and> set (map sectionTitle secs) =
        category ` set (filter (recordMatches q) (releasedDevices devices))
    \<and> (\<forall>s \<in> set secs. items s =
          map (itemOf url (sectionTitle s))
            (filter (\<lambda>d. category d = sectionTitle s)
              (filter (recordMatches q) (releasedDevices devices))))"
proof -
  define fs where "fs = filter (recordMatches q) (releasedDevices devices)"
  from assms have "\<not> (\<exists>d \<in> set fs. category d \<in> set objectPrototypeKeys)"
    by (auto simp: fs_def releasedDevices_def)
  then have cmd: "Command url devices q = Inr (sectionsOf url fs)"
    by (simp add: Command_eq Let_def flip: fs_def)
  have titles: "map sectionTitle (sectionsOf url fs) = sorted_list_of_set (category ` set fs)"
    by (simp add: sectionsOf_def comp_def)
  have "\<forall>s \<in> set (sectionsOf url fs). items s =
      map (itemOf url (sectionTitle s)) (filter (\<lambda>d. category d = sectionTitle s) fs)"
    using sectionsOf_member by blast
  moreover have "sorted (map sectionTitle (sectionsOf url fs))"
    "distinct (map sectionTitle (sectionsOf url fs))"
    by (simp_all only: titles sorted_sorted_list_of_set distinct_sorted_list_of_set)
  moreover have "set (map sectionTitle (sectionsOf url fs)) = category ` set fs"
    by (simp only: titles) simp
  ultimately show ?thesis
    unfolding fs_def [symmetric] using cmd by blast
qed





section \<open>Properties of the extractor\<close>

lemma documentElements_simps:
  "documentElements [] = []"
  "documentElements (Text s # rest) = documentElements rest"
  "documentElements (Element tag classes children # rest) =
     Element tag classes children # documentElements children @ documentElements rest"
  by (simp_all add: documentElements_def)

lemma headings_document_order:
  "map fst (headings document) = filter (matches h2) (documentElements document)"
  by (induction document rule: headings.induct) (simp_all add: documentElements_simps)

lemma extractRow_eq:
  "extractRow cat row =
     (let cells = querySelectorAll cellSelector row in
      if 2 \<le> length cells \<and> trim (textContent (cells ! 0)) \<noteq> []
      then [\<lparr>category = cat, name = trim (textContent (cells ! 0)),
             basedOn = Some (trim (textContent (cells ! 1)))\<rparr>]
      else [])"
proof (cases "querySelectorAll cellSelector row")
  case Nil
  then show ?thesis by (simp add: extractRow_def)
next
  case (Cons c0 cs)
  then show ?thesis by (cases cs) (simp_all add: extractRow_def Let_def)
qed

lemma walkSiblings_skip:
  assumes "\<forall>s \<in> set before. \<not> matches h2 s \<and> querySelectorAll rowSelector s = []"
  shows "walkSiblings cat (before @ rest) = walkSiblings cat rest"
  using assms by (induction before) simp_all

lemma walkSiblings_container:
  assumes "\<not> matches h2 c" "querySelectorAll rowSelector c \<noteq> []"
  shows "walkSiblings cat (c # rest) =
    concat (map (extractRow cat) (querySelectorAll rowSelector c))"
  using assms by simp

lemma walkSiblings_heading: "matches h2 c \<Longrightarrow> walkSiblings cat (c # rest) = []"
  by simp

lemma headings_member:
  assumes "matches h2 heading"
  shows "(heading, filter isElement rest) \<in> set (headings (pre @ heading # rest))"
proof (induction pre)
  case Nil
  from assms show ?case by (cases heading) (simp_all add: h2_def)
next
  case (Cons x pre)
  then show ?case by (cases x) simp_all
qed

lemma headings_childLists:
  "ns \<in> set (childLists document) \<Longrightarrow> set (headings ns) \<subseteq> set (headings document)"
  by (induction document rule: childLists.induct) auto

lemma headings_siblingLists:
  assumes "pre @ heading # rest \<in> set (siblingLists document)" "matches h2 heading"
  shows "(heading, filter isElement rest) \<in> set (headings document)"
proof -
  from assms(2) have "(heading, filter isElement rest) \<in> set (headings (pre @ heading # rest))"
    by (rule headings_member)
  with assms(1) headings_childLists [of "pre @ heading # rest" document]
  show ?thesis by (auto simp: siblingLists_def)
qed

lemma extractDevices_heading:
  assumes "pre @ heading # rest \<in> set (siblingLists document)" "matches h2 heading"
  shows "\<exists>hs1 hs2. headings document = hs1 @ (heading, filter isElement rest) # hs2
    \<and> extractDevices document =
        concat (map scrapeHeading hs1) @ scrapeHeading (heading, filter isElement rest)
        @ concat (map scrapeHeading hs2)"
proof -
  from headings_siblingLists [OF assms]
  obtain hs1 hs2 where "headings document = hs1 @ (heading, filter isElement rest) # hs2"
    by (auto dest: split_list)
  then show ?thesis by (auto simp: extractDevices_def)
qed

lemma scrapeDeviceList_no_write: "WriteFileSync ds \<notin> set (fst (scrapeDeviceList env))"
  by (simp add: scrapeDeviceList_def finallyBlock_def tryBlock_def Let_def
      split: option.splits sum.splits)

lemma scrapeDeviceList_fails:
  assumes "launch env \<noteq> None \<or> newPage env \<noteq> None \<or> goto env \<noteq> None
    \<or> isl (pageDocument env) \<or> close env \<noteq> None"
  shows "\<exists>e. snd (scrapeDeviceList env) = Inl e"
  using assms
  by (auto simp: scrapeDeviceList_def finallyBlock_def tryBlock_def Let_def isl_def
      split: option.splits sum.splits)

lemma scrapeDeviceList_succeeds:
  assumes "snd (scrapeDeviceList env) = Inr ds"
  shows "launch env = None \<and> newPage env = None \<and> goto env = None \<and> close env = None
    \<and> pageDocument env = Inr (projr (pageDocument env))
    \<and> ds = extractDevices (projr (pageDocument env))"
  using assms
  by (auto simp: scrapeDeviceList_def finallyBlock_def tryBlock_def Let_def
      split: option.splits sum.splits)

lemma main_failure:
  assumes "snd (scrapeDeviceList env) = Inl e"
  shows "main env = (fst (scrapeDeviceList env) @ [ConsoleError e], 1)"
  using assms by (cases "scrapeDeviceList env") (simp add: main_def)

lemma main_write:
  assumes "WriteFileSync ds \<in> set (fst (main env))"
  shows "snd (scrapeDeviceList env) = Inr ds"
proof (cases "scrapeDeviceList env")
  case (Pair tr r)
  with scrapeDeviceList_no_write [of _ env] have nw: "\<And>xs. WriteFileSync xs \<notin> set tr"
    by simp
  show ?thesis
  proof (cases r)
    case (Inl e)
    with Pair assms nw show ?thesis by (simp add: main_def)
  next
    case (Inr devices)
    with Pair assms nw show ?thesis
      by (auto simp: main_def Let_def split: option.splits if_splits)
  qed
qed

section \<open>Claims about the extractor\<close>

text \<open>
  Claim C1. Take a heading of the document, at any depth, whose text is not empty after
  trimming, and let the container be the first of its following sibling elements that
  holds matching rows, with no heading among the siblings before it. Then the extractor's
  output has, at the place of this heading among the headings in document order, the
  records of the container's rows in row order, where a row with at least two cells and a
  first cell that is not empty after trimming yields exactly one record (category: the
  trimmed text of the heading; name: the trimmed text of the first cell; \<open>basedOn\<close>:
  the trimmed text of the second cell) and every other row yields none.
\<close>

theorem heading_rows_yield_records:
  assumes "pre @ heading # rest \<in> set (siblingLists document)"
    and "matches h2 heading"
    and "trim (textContent heading) \<noteq> []"
    and "filter isElement rest = before @ container # after"
    and "\<forall>s \<in> set before. \<not> matches h2 s \<and> querySelectorAll rowSelector s = []"
    and "\<not> matches h2 container"
    and "querySelectorAll rowSelector container \<noteq> []"
  shows "(\<exists>hs1 hs2. headings document = hs1 @ (heading, filter isElement rest) # hs2
        \<and> extractDevices document =
            concat (map scrapeHeading hs1)
            @ concat (map (extractRow (trim (textContent heading)))
                (querySelectorAll rowSelector container))
            @ concat (map scrapeHeading hs2))
    \<and> (\<forall>row. extractRow (trim (textContent heading)) row =
        (let cells = querySelectorAll cellSelector row in
         if 2 \<le> length cells \<and> trim (textContent (cells ! 0)) \<noteq> []
         then [\<lparr>category = trim (textContent heading),
                name = trim (textContent (cells ! 0)),
                basedOn = Some (trim (textContent (cells ! 1)))\<rparr>]
         else []))"
proof -
  from assms(3) have "scrapeHeading (heading, filter isElement rest) =
      walkSiblings (trim (textContent heading)) (before @ container # after)"
    by (simp add: scrapeHeading_def assms(4))
  also have "\<dots> = walkSiblings (trim (textContent heading)) (container # after)"
    by (rule walkSiblings_skip [OF assms(5)])
  also have "\<dots> = concat (map (extractRow (trim (textContent heading)))
        (querySelectorAll rowSelector container))"
    by (rule walkSiblings_container [OF assms(6,7)])
  finally have block: "scrapeHeading (heading, filter isElement rest) =
      concat (map (extractRow (trim (textContent heading)))
        (querySelectorAll rowSelector container))" .
  from extractDevices_heading [OF assms(1,2)] show ?thesis
    unfolding block by (simp add: extractRow_eq)
qed

theorem heading_rows_yield_records_witness:
  "[Text ''  '', Element ''h2'' [] [Text ''Effects''],
     Element ''div'' [] [rowOf [cellOf ''Chorus'', cellOf ''CE-1'']]]
     @ exampleHeading
     # (Text ''  '' # exampleSiblings @
          [Element ''h2'' [] [Text ''Cabs''], Element ''h2'' [] [Text ''Mics''],
           Element ''div'' [] [rowOf [cellOf ''Ribbon 121'', cellOf ''R-121'']]])
     \<in> set (siblingLists exampleDocument)
   \<and> matches h2 exampleHeading
   \<and> trim (textContent exampleHeading) \<noteq> []
   \<and> \<not> matches h2 (exampleSiblings ! 0) \<and> querySelectorAll rowSelector (exampleSiblings ! 0) = []
   \<and> \<not> matches h2 (exampleSiblings ! 1) \<and> querySelectorAll rowSelector (exampleSiblings ! 1) \<noteq> []
   \<and> (\<exists>earlier later. extractDevices exampleDocument =
         earlier @
         [\<lparr>category = ''Guitar amps'', name = ''Brit 800'', basedOn = Some ''Marshall JCM800''\<rparr>,
          \<lparr>category = ''Guitar amps'', name = ''Twin'', basedOn = Some []\<rparr>] @ later)
   \<and> extractDevices exampleDocument =
       [\<lparr>category = ''Effects'', name = ''Chorus'', basedOn = Some ''CE-1''\<rparr>,
        \<lparr>category = ''Guitar amps'', name = ''Brit 800'', basedOn = Some ''Marshall JCM800''\<rparr>,
        \<lparr>category = ''Guitar amps'', name = ''Twin'', basedOn = Some []\<rparr>,
        \<lparr>category = ''Mics'', name = ''Ribbon 121'', basedOn = Some ''R-121''\<rparr>]"
proof -
  define rest where "rest = Text ''  '' # exampleSiblings @
          [Element ''h2'' [] [Text ''Cabs''], Element ''h2'' [] [Text ''Mics''],
           Element ''div'' [] [rowOf [cellOf ''Ribbon 121'', cellOf ''R-121'']]]"
  define after where "after = [exampleSiblings ! 2,
           Element ''h2'' [] [Text ''Cabs''], Element ''h2'' [] [Text ''Mics''],
           Element ''div'' [] [rowOf [cellOf ''Ribbon 121'', cellOf ''R-121'']]]"
  have occ: "[Text ''  '', Element ''h2'' [] [Text ''Effects''],
     Element ''div'' [] [rowOf [cellOf ''Chorus'', cellOf ''CE-1'']]]
     @ exampleHeading # rest \<in> set (siblingLists exampleDocument)"
    unfolding rest_def by code_simp
  have m: "matches h2 exampleHeading" by code_simp
  have h: "trim (textContent exampleHeading) \<noteq> []" by code_simp
  have sibs: "filter isElement rest = [exampleSiblings ! 0] @ exampleSiblings ! 1 # after"
    unfolding rest_def after_def by code_simp
  have b: "\<forall>s \<in> set [exampleSiblings ! 0].
      \<not> matches h2 s \<and> querySelectorAll rowSelector s = []"
    by code_simp
  have c: "\<not> matches h2 (exampleSiblings ! 1)" by code_simp
  have r: "querySelectorAll rowSelector (exampleSiblings ! 1) \<noteq> []" by code_simp
  have v: "concat (map (extractRow (trim (textContent exampleHeading)))
        (querySelectorAll rowSelector (exampleSiblings ! 1))) =
       [\<lparr>category = ''Guitar amps'', name = ''Brit 800'', basedOn = Some ''Marshall JCM800''\<rparr>,
        \<lparr>category = ''Guitar amps'', name = ''Twin'', basedOn = Some []\<rparr>]"
    by code_simp
  have all: "extractDevices exampleDocument =
       [\<lparr>category = ''Effects'', name = ''Chorus'', basedOn = Some ''CE-1''\<rparr>,
        \<lparr>category = ''Guitar amps'', name = ''Brit 800'', basedOn = Some ''Marshall JCM800''\<rparr>,
        \<lparr>category = ''Guitar amps'', name = ''Twin'', basedOn = Some []\<rparr>,
        \<lparr>category = ''Mics'', name = ''Ribbon 121'', basedOn = Some ''R-121''\<rparr>]"
    by code_simp
  from heading_rows_yield_records [OF occ m h sibs b c r]
  have "\<exists>earlier later. extractDevices exampleDocument =
         earlier @
         [\<lparr>category = ''Guitar amps'', name = ''Brit 800'', basedOn = Some ''Marshall JCM800''\<rparr>,
          \<lparr>category = ''Guitar amps'', name = ''Twin'', basedOn = Some []\<rparr>] @ later"
    unfolding v by blast
  with occ m h b c r all show ?thesis
    unfolding rest_def by simp
qed

text \<open>
  Claim C2. For every heading of the document, at any depth, the extractor's output has,
  at the place of this heading among the headings in document order, the records of the
  walk over the elements that follow the heading among the children of its parent. Past
  siblings that are no heading and hold no matching row, the walk stops at the first
  sibling that holds matching rows and yields the records of that sibling's rows only,
  whatever follows (none when the heading's text is blank); if a heading comes first, or
  the siblings run out, the heading contributes no record.
\<close>

theorem walk_stops_at_first_container:
  assumes "pre @ heading # rest \<in> set (siblingLists document)"
    and "matches h2 heading"
    and "\<forall>s \<in> set before. \<not> matches h2 s \<and> querySelectorAll rowSelector s = []"
  shows "(\<exists>hs1 hs2. headings document = hs1 @ (heading, filter isElement rest) # hs2
        \<and> extractDevices document =
            concat (map scrapeHeading hs1) @ scrapeHeading (heading, filter isElement rest)
            @ concat (map scrapeHeading hs2))
    \<and> (filter isElement rest = before @ c # after
          \<and> \<not> matches h2 c \<and> querySelectorAll rowSelector c \<noteq> [] \<longrightarrow>
        scrapeHeading (heading, filter isElement rest) =
          (if trim (textContent heading) = [] then []
           else concat (map (extractRow (trim (textContent heading)))
                  (querySelectorAll rowSelector c))))
    \<and> (filter isElement rest = before @ c # after \<and> matches h2 c \<longrightarrow>
        scrapeHeading (heading, filter isElement rest) = [])
    \<and> (filter isElement rest = before \<longrightarrow>
        scrapeHeading (heading, filter isElement rest) = [])"
proof -
  have skip: "walkSiblings k (before @ xs) = walkSiblings k xs" for k xs
    by (rule walkSiblings_skip [OF assms(3)])
  have "filter isElement rest = before @ c # after
          \<and> \<not> matches h2 c \<and> querySelectorAll rowSelector c \<noteq> [] \<longrightarrow>
        scrapeHeading (heading, filter isElement rest) =
          (if trim (textContent heading) = [] then []
           else concat (map (extractRow (trim (textContent heading)))
                  (querySelectorAll rowSelector c)))"
    by (simp add: scrapeHeading_def Let_def skip)
  moreover have "filter isElement rest = before @ c # after \<and> matches h2 c \<longrightarrow>
        scrapeHeading (heading, filter isElement rest) = []"
    by (simp add: scrapeHeading_def Let_def skip)
  moreover have "filter isElement rest = before \<longrightarrow>
        scrapeHeading (heading, filter isElement rest) = []"
    using skip [of _ "[]"] by (simp add: scrapeHeading_def Let_def)
  ultimately show ?thesis
    using extractDevices_heading [OF assms(1,2)] by (intro conjI)
qed

theorem walk_stops_at_first_container_witness:
  "extractDevices exampleDocument =
       [\<lparr>category = ''Effects'', name = ''Chorus'', basedOn = Some ''CE-1''\<rparr>,
        \<lparr>category = ''Guitar amps'', name = ''Brit 800'', basedOn = Some ''Marshall JCM800''\<rparr>,
        \<lparr>category = ''Guitar amps'', name = ''Twin'', basedOn = Some []\<rparr>,
        \<lparr>category = ''Mics'', name = ''Ribbon 121'', basedOn = Some ''R-121''\<rparr>]
   \<and> scrapeHeading (exampleHeading, exampleSiblings @
          [Element ''h2'' [] [Text ''Cabs''], Element ''h2'' [] [Text ''Mics''],
           Element ''div'' [] [rowOf [cellOf ''Ribbon 121'', cellOf ''R-121'']]]) =
       [\<lparr>category = ''Guitar amps'', name = ''Brit 800'', basedOn = Some ''Marshall JCM800''\<rparr>,
        \<lparr>category = ''Guitar amps'', name = ''Twin'', basedOn = Some []\<rparr>]
   \<and> scrapeHeading (Element ''h2'' [] [Text ''Cabs''],
         [Element ''h2'' [] [Text ''Mics''],
          Element ''div'' [] [rowOf [cellOf ''Ribbon 121'', cellOf ''R-121'']]]) = []
   \<and> (\<exists>earlier later. extractDevices exampleDocument =
         earlier @
         [\<lparr>category = ''Guitar amps'', name = ''Brit 800'', basedOn = Some ''Marshall JCM800''\<rparr>,
          \<lparr>category = ''Guitar amps'', name = ''Twin'', basedOn = Some []\<rparr>] @ later)"
proof -
  define tail where "tail = [Element ''h2'' [] [Text ''Cabs''], Element ''h2'' [] [Text ''Mics''],
           Element ''div'' [] [rowOf [cellOf ''Ribbon 121'', cellOf ''R-121'']]]"
  define front where "front = [Text ''  '', Element ''h2'' [] [Text ''Effects''],
     Element ''div'' [] [rowOf [cellOf ''Chorus'', cellOf ''CE-1'']]]"
  have occ: "front @ exampleHeading # (Text ''  '' # exampleSiblings @ tail)
      \<in> set (siblingLists exampleDocument)"
    unfolding front_def tail_def by code_simp
  have occ2: "(front @ exampleHeading # Text ''  '' # exampleSiblings)
      @ Element ''h2'' [] [Text ''Cabs''] # tl tail \<in> set (siblingLists exampleDocument)"
    unfolding front_def tail_def by code_simp
  have m: "matches h2 exampleHeading" by code_simp
  have m2: "matches h2 (Element ''h2'' [] [Text ''Cabs''])" by code_simp
  have m3: "matches h2 (Element ''h2'' [] [Text ''Mics''])" by code_simp
  have h: "trim (textContent exampleHeading) \<noteq> []" by code_simp
  have sibs: "filter isElement (Text ''  '' # exampleSiblings @ tail) =
      [exampleSiblings ! 0] @ exampleSiblings ! 1 # (exampleSiblings ! 2 # tail)"
    unfolding tail_def by code_simp
  have sibs': "[exampleSiblings ! 0] @ exampleSiblings ! 1 # (exampleSiblings ! 2 # tail) =
      exampleSiblings @ tail"
    unfolding tail_def by code_simp
  have sibs2: "filter isElement (tl tail) =
      [] @ Element ''h2'' [] [Text ''Mics''] #
        [Element ''div'' [] [rowOf [cellOf ''Ribbon 121'', cellOf ''R-121'']]]"
    unfolding tail_def by code_simp
  have b: "\<forall>s \<in> set [exampleSiblings ! 0].
      \<not> matches h2 s \<and> querySelectorAll rowSelector s = []"
    by code_simp
  have e: "\<forall>s \<in> set []. \<not> matches h2 s \<and> querySelectorAll rowSelector s = []" by simp
  have c: "\<not> matches h2 (exampleSiblings ! 1)" by code_simp
  have r: "querySelectorAll rowSelector (exampleSiblings ! 1) \<noteq> []" by code_simp
  have v: "concat (map (extractRow (trim (textContent exampleHeading)))
        (querySelectorAll rowSelector (exampleSiblings ! 1))) =
       [\<lparr>category = ''Guitar amps'', name = ''Brit 800'', basedOn = Some ''Marshall JCM800''\<rparr>,
        \<lparr>category = ''Guitar amps'', name = ''Twin'', basedOn = Some []\<rparr>]"
    by code_simp
  have all: "extractDevices exampleDocument =
       [\<lparr>category = ''Effects'', name = ''Chorus'', basedOn = Some ''CE-1''\<rparr>,
        \<lparr>category = ''Guitar amps'', name = ''Brit 800'', basedOn = Some ''Marshall JCM800''\<rparr>,
        \<lparr>category = ''Guitar amps'', name = ''Twin'', basedOn = Some []\<rparr>,
        \<lparr>category = ''Mics'', name = ''Ribbon 121'', basedOn = Some ''R-121''\<rparr>]"
    by code_simp
  note t1 = walk_stops_at_first_container [OF occ m b,
      of "exampleSiblings ! 1" "exampleSiblings ! 2 # tail"]
  note t2 = walk_stops_at_first_container [OF occ2 m2 e,
      of "Element ''h2'' [] [Text ''Mics'']"
         "[Element ''div'' [] [rowOf [cellOf ''Ribbon 121'', cellOf ''R-121'']]]"]
  from t1 sibs c r h v
  have 1: "scrapeHeading (exampleHeading, exampleSiblings @ tail) =
       [\<lparr>category = ''Guitar amps'', name = ''Brit 800'', basedOn = Some ''Marshall JCM800''\<rparr>,
        \<lparr>category = ''Guitar amps'', name = ''Twin'', basedOn = Some []\<rparr>]"
    unfolding sibs' [symmetric] by simp
  from t2 sibs2 m3
  have 2: "scrapeHeading (Element ''h2'' [] [Text ''Cabs''],
         [Element ''h2'' [] [Text ''Mics''],
          Element ''div'' [] [rowOf [cellOf ''Ribbon 121'', cellOf ''R-121'']]]) = []"
    by simp
  from t1 have "\<exists>hs1 hs2. extractDevices exampleDocument =
      concat (map scrapeHeading hs1)
      @ scrapeHeading (exampleHeading, filter isElement (Text ''  '' # exampleSiblings @ tail))
      @ concat (map scrapeHeading hs2)"
    by blast
  then have 3: "\<exists>earlier later. extractDevices exampleDocument =
         earlier @
         [\<lparr>category = ''Guitar amps'', name = ''Brit 800'', basedOn = Some ''Marshall JCM800''\<rparr>,
          \<lparr>category = ''Guitar amps'', name = ''Twin'', basedOn = Some []\<rparr>] @ later"
    unfolding sibs sibs' 1 by blast
  from all 1 2 3 show ?thesis unfolding tail_def by simp
qed

text \<open>
  Claim C6, amended. If the launch of the browser, the creation or the load of the page,
  the in-page evaluation or the closing of the browser throws, the run logs that error as
  its last effect, exits with status 1 and does not call the file write at all. The write
  is called only when the extraction has completed, and with the complete list of
  extracted records. (A failure of the wait for a heading is not such an error: it is
  caught where it occurs and the run goes on.)
\<close>

theorem failed_extraction_writes_nothing:
  "(launch env \<noteq> None \<or> newPage env \<noteq> None \<or> goto env \<noteq> None
      \<or> isl (pageDocument env) \<or> close env \<noteq> None \<longrightarrow>
      (\<exists>e tr. main env = (tr @ [ConsoleError e], 1) \<and> snd (scrapeDeviceList env) = Inl e
         \<and> (\<forall>ds. WriteFileSync ds \<notin> set tr)))
   \<and> (\<forall>ds. WriteFileSync ds \<in> set (fst (main env)) \<longrightarrow>
        launch env = None \<and> newPage env = None \<and> goto env = None \<and> close env = None
        \<and> (\<exists>document. pageDocument env = Inr document \<and> ds = extractDevices document))"
proof (intro conjI impI allI)
  assume "launch env \<noteq> None \<or> newPage env \<noteq> None \<or> goto env \<noteq> None
      \<or> isl (pageDocument env) \<or> close env \<noteq> None"
  from scrapeDeviceList_fails [OF this]
  obtain e where e: "snd (scrapeDeviceList env) = Inl e" ..
  from main_failure [OF e] e scrapeDeviceList_no_write [of _ env]
  show "\<exists>e tr. main env = (tr @ [ConsoleError e], 1) \<and> snd (scrapeDeviceList env) = Inl e
         \<and> (\<forall>ds. WriteFileSync ds \<notin> set tr)"
    by blast
next
  fix ds
  assume "WriteFileSync ds \<in> set (fst (main env))"
  from scrapeDeviceList_succeeds [OF main_write [OF this]]
  show "launch env = None" "newPage env = None" "goto env = None" "close env = None"
    "\<exists>document. pageDocument env = Inr document \<and> ds = extractDevices document"
    by blast+
qed

theorem failed_extraction_writes_nothing_witness:
  "goto gotoFailsEnv \<noteq> None
   \<and> main gotoFailsEnv =
       ([ConsoleLog Launching, ConsoleLog Fetching, BrowserClose,
         ConsoleError (Thrown ''net::ERR_NAME_NOT_RESOLVED'')], 1)"
proof -
  have g: "goto gotoFailsEnv \<noteq> None" by code_simp
  have m: "main gotoFailsEnv =
       ([ConsoleLog Launching, ConsoleLog Fetching, BrowserClose,
         ConsoleError (Thrown ''net::ERR_NAME_NOT_RESOLVED'')], 1)"
    by code_simp
  from failed_extraction_writes_nothing [of gotoFailsEnv] g
  have "\<exists>e tr. main gotoFailsEnv = (tr @ [ConsoleError e], 1)
      \<and> snd (scrapeDeviceList gotoFailsEnv) = Inl e \<and> (\<forall>ds. WriteFileSync ds \<notin> set tr)"
    by blast
  with g m show ?thesis by simp
qed

text \<open>The claim as stated counts the wait among the failures that end the run. When only
  the wait for a heading fails, the run logs a warning, writes the file and exits with
  status 0.\<close>

theorem wait_failure_counterexample:
  "waitForSelector waitFailsEnv = Some (Thrown ''TimeoutError'')
   \<and> main waitFailsEnv =
       ([ConsoleLog Launching, ConsoleLog Fetching, ConsoleWarn, BrowserClose,
         ConsoleLog (Scraped 0), WriteFileSync [], ConsoleLog (Wrote 0), ConsoleLog Summary], 0)"
  by code_simp

section \<open>Claims about the search view\<close>

text \<open>
  Claim C3. For every record that is not excluded and every query: the empty query matches
  the record; any other query matches it exactly when the query is a case-insensitive
  substring of the name, or of the category, or of \<open>basedOn\<close> when \<open>basedOn\<close> is
  not empty after trimming. The filter callback never throws and computes this condition
  (\<^const>\<open>recordMatches\<close>), so the filtered list holds the records of the candidate
  set that satisfy it, in their order. On the example dataset the query \<open>marshall\<close>
  keeps only the record based on \<open>Marshall JCM800\<close>, and the query \<open>secret\<close> keeps
  none.
\<close>

theorem search_filter_matches:
  "matchesSearch q d = Inr (recordMatches q d)
   \<and> filtered q devices = Inr (filter (recordMatches q) (releasedDevices devices))
   \<and> filtered ''marshall'' exampleDevices =
       Inr [\<lparr>category = ''Amps'', name = ''Brit 800'', basedOn = Some ''Marshall JCM800''\<rparr>]
   \<and> filtered ''secret'' exampleDevices = Inr []"
proof -
  have "filtered ''marshall'' exampleDevices =
       Inr [\<lparr>category = ''Amps'', name = ''Brit 800'', basedOn = Some ''Marshall JCM800''\<rparr>]"
    by code_simp
  moreover have "filtered ''secret'' exampleDevices = Inr []"
    by code_simp
  ultimately show ?thesis
    by (simp only: matchesSearch_eq filtered_eq simp_thms)
qed

theorem search_filter_matches_witness:
  "matchesSearch ''marshall''
     \<lparr>category = ''Amps'', name = ''Brit 800'', basedOn = Some ''Marshall JCM800''\<rparr> = Inr True
   \<and> matchesSearch ''marshall'' \<lparr>category = ''Amps'', name = ''Twin'', basedOn = Some []\<rparr>
       = Inr False"
proof -
  have "recordMatches ''marshall''
     \<lparr>category = ''Amps'', name = ''Brit 800'', basedOn = Some ''Marshall JCM800''\<rparr>"
    by code_simp
  moreover have "\<not> recordMatches ''marshall''
     \<lparr>category = ''Amps'', name = ''Twin'', basedOn = Some []\<rparr>"
    by code_simp
  ultimately show ?thesis
    using search_filter_matches [of "''marshall''"
        "\<lparr>category = ''Amps'', name = ''Brit 800'', basedOn = Some ''Marshall JCM800''\<rparr>"]
      search_filter_matches [of "''marshall''"
        "\<lparr>category = ''Amps'', name = ''Twin'', basedOn = Some []\<rparr>"]
    by simp
qed

text \<open>
  Claim C4. For every query, the records whose category is the sentinel label are removed
  before the text filter runs: the filtered list is the text filter applied to the dataset
  without them, and no such record is in the filtered list, in a group, or in a rendered
  section (neither as a section title nor as the category tag of an item).
\<close>

theorem excluded_never_appears:
  "filtered q devices =
     Inr (filter (recordMatches q) (filter (\<lambda>d. category d \<noteq> excludedCategory) devices))
   \<and> (\<forall>fs. filtered q devices = Inr fs \<longrightarrow> (\<forall>d \<in> set fs. category d \<noteq> excludedCategory))
   \<and> (\<forall>g. groupedDevices q devices = Inr g \<longrightarrow>
        (\<forall>(c, ds) \<in> set g. c \<noteq> excludedCategory \<and>
           (\<forall>d \<in> set ds. category d \<noteq> excludedCategory)))
   \<and> (\<forall>secs. Command url devices q = Inr secs \<longrightarrow>
        (\<forall>s \<in> set secs. sectionTitle s \<noteq> excludedCategory \<and>
           (\<forall>i \<in> set (items s). accessories i \<noteq> [excludedCategory])))"
proof -
  define fs where "fs = filter (recordMatches q) (releasedDevices devices)"
  have fil: "filtered q devices = Inr fs" by (simp add: fs_def filtered_eq)
  have fs: "category d \<noteq> excludedCategory" if "d \<in> set fs" for d
    using that by (simp add: fs_def releasedDevices_def)
  have grp: "c \<noteq> excludedCategory \<and> (\<forall>d \<in> set ds. category d \<noteq> excludedCategory)"
    if "groupedDevices q devices = Inr g" "(c, ds) \<in> set g" for g c ds
  proof -
    from that(1) have "reduceE groupStep [] fs = Inr g"
      by (simp add: groupedDevices_def fil)
    from reduceE_groupsOf [OF groupsOf_Nil this] have "groupsOf fs g" by simp
    from groupsOf_member [OF this that(2)] fs show ?thesis by auto
  qed
  have cmd: "sectionTitle s \<noteq> excludedCategory \<and>
        (\<forall>i \<in> set (items s). accessories i \<noteq> [excludedCategory])"
    if "Command url devices q = Inr secs" "s \<in> set secs" for secs s
  proof -
    from that(1) have "secs = sectionsOf url fs"
      by (simp add: Command_eq Let_def fs_def split: if_splits)
    with that(2) have "s \<in> set (sectionsOf url fs)" by simp
    from sectionsOf_member [OF this]
    have t: "sectionTitle s \<in> category ` set fs"
      and i: "\<forall>i \<in> set (items s). accessories i = [sectionTitle s]"
      by (simp_all add: itemOf_def)
    from fs have "excludedCategory \<notin> category ` set fs" by (metis imageE)
    with t have "sectionTitle s \<noteq> excludedCategory" by metis
    with i show ?thesis by simp
  qed
  have "filtered q devices =
     Inr (filter (recordMatches q) (filter (\<lambda>d. category d \<noteq> excludedCategory) devices))"
    using fil by (simp only: fs_def releasedDevices_def)
  moreover have "\<forall>fs'. filtered q devices = Inr fs' \<longrightarrow>
      (\<forall>d \<in> set fs'. category d \<noteq> excludedCategory)"
    using fs by (simp add: fil)
  moreover have "\<forall>g. groupedDevices q devices = Inr g \<longrightarrow>
        (\<forall>(c, ds) \<in> set g. c \<noteq> excludedCategory \<and>
           (\<forall>d \<in> set ds. category d \<noteq> excludedCategory))"
    using grp by blast
  moreover have "\<forall>secs. Command url devices q = Inr secs \<longrightarrow>
        (\<forall>s \<in> set secs. sectionTitle s \<noteq> excludedCategory \<and>
           (\<forall>i \<in> set (items s). accessories i \<noteq> [excludedCategory]))"
    using cmd by blast
  ultimately show ?thesis by (intro conjI)
qed

theorem excluded_never_appears_witness:
  "filtered [] exampleDevices =
     Inr [\<lparr>category = ''Amps'', name = ''Brit 800'', basedOn = Some ''Marshall JCM800''\<rparr>,
          \<lparr>category = ''Amps'', name = ''Twin'', basedOn = Some []\<rparr>]
   \<and> ''Amps'' \<noteq> excludedCategory
   \<and> category (exampleDevices ! 2) = excludedCategory"
proof -
  have "filtered [] exampleDevices =
     Inr [\<lparr>category = ''Amps'', name = ''Brit 800'', basedOn = Some ''Marshall JCM800''\<rparr>,
          \<lparr>category = ''Amps'', name = ''Twin'', basedOn = Some []\<rparr>]"
    by code_simp
  moreover have "category (exampleDevices ! 2) = excludedCategory"
    by code_simp
  moreover have "\<forall>fs. filtered [] exampleDevices = Inr fs \<longrightarrow>
      (\<forall>d \<in> set fs. category d \<noteq> excludedCategory)"
    using excluded_never_appears [of "[]" exampleDevices "''u''"] by (elim conjE)
  ultimately show ?thesis by simp
qed

text \<open>
  Claim C5 says that every set of matching records is partitioned by category, with the
  sections in ascending order. The reducer groups into a plain object, so a category that
  names a member of \<open>Object.prototype\<close> is found "already there": for the single
  matching record of category \<open>constructor\<close> the grouping throws a \<open>TypeError\<close>
  and nothing is rendered.
\<close>

theorem grouping_throws_on_inherited_key:
  "groupedDevices [] [\<lparr>category = ''constructor'', name = ''Amp'', basedOn = Some []\<rparr>]
     = Inl TypeError
   \<and> Command url [\<lparr>category = ''constructor'', name = ''Amp'', basedOn = Some []\<rparr>] []
     = Inl TypeError"
proof -
  have "groupedDevices [] [\<lparr>category = ''constructor'', name = ''Amp'', basedOn = Some []\<rparr>]
     = Inl TypeError"
    by code_simp
  then show ?thesis by (simp add: Command_def)
qed

text \<open>
  Claim C7, amended. For every rendered record the subtitle is the record's
  \<open>basedOn\<close> when it is present, and the empty string when it is absent. (An empty
  \<open>basedOn\<close> gives the empty subtitle; a \<open>basedOn\<close> of white space only is shown
  as it is, not replaced by the empty string.)
\<close>

theorem subtitle_is_basedOn_or_empty:
  "\<exists>as. renderItem url cat d =
     Inr \<lparr>title = name d,
          subtitle = (case basedOn d of None \<Rightarrow> [] | Some s \<Rightarrow> s),
          accessories = [cat], actions = as\<rparr>"
  by (simp add: renderItem_eq itemOf_def)

theorem subtitle_is_basedOn_or_empty_witness:
  "(\<exists>as. renderItem ''u'' ''Amps'' \<lparr>category = ''Amps'', name = ''Twin'', basedOn = None\<rparr> =
     Inr \<lparr>title = ''Twin'', subtitle = [], accessories = [''Amps''], actions = as\<rparr>)
   \<and> (\<exists>as. renderItem ''u'' ''Amps''
          \<lparr>category = ''Amps'', name = ''Brit 800'', basedOn = Some ''Marshall JCM800''\<rparr> =
     Inr \<lparr>title = ''Brit 800'', subtitle = ''Marshall JCM800'', accessories = [''Amps''],
          actions = as\<rparr>)"
  using subtitle_is_basedOn_or_empty [of "''u''" "''Amps''"
      "\<lparr>category = ''Amps'', name = ''Twin'', basedOn = None\<rparr>"]
    subtitle_is_basedOn_or_empty [of "''u''" "''Amps''"
      "\<lparr>category = ''Amps'', name = ''Brit 800'', basedOn = Some ''Marshall JCM800''\<rparr>"]
  by simp

text \<open>The claim as stated fails for a \<open>basedOn\<close> of two spaces: it is blank,
  and the subtitle is the two spaces.\<close>

theorem subtitle_blank_counterexample:
  "trim ''  '' = []
   \<and> renderItem ''u'' ''Amps'' \<lparr>category = ''Amps'', name = ''Twin'', basedOn = Some ''  ''\<rparr> =
       Inr \<lparr>title = ''Twin'', subtitle = ''  '', accessories = [''Amps''],
            actions = [OpenInBrowser ''u'']\<rparr>"
  by code_simp

text \<open>
  Claim C8. For every rendered record the copy action is offered exactly when
  \<open>basedOn\<close> is present and not empty after trimming, and it carries the record's
  \<open>basedOn\<close> unchanged; the action that opens the reference page is offered for every
  record, with the one URL of the view.
\<close>

theorem copy_action_iff_nonblank:
  "itemActions url d =
     Inr ((if (case basedOn d of None \<Rightarrow> False | Some s \<Rightarrow> trim s \<noteq> [])
           then [CopyToClipboard (basedOn d)] else []) @ [OpenInBrowser url])
   \<and> (\<exists>item. renderItem url cat d = Inr item
        \<and> (\<forall>v. CopyToClipboard v \<in> set (actions item) \<longleftrightarrow>
               v = basedOn d \<and> (\<exists>s. basedOn d = Some s \<and> trim s \<noteq> []))
        \<and> (\<forall>u. OpenInBrowser u \<in> set (actions item) \<longleftrightarrow> u = url))"
proof -
  have "itemActions url d =
     Inr ((if (case basedOn d of None \<Rightarrow> False | Some s \<Rightarrow> trim s \<noteq> [])
           then [CopyToClipboard (basedOn d)] else []) @ [OpenInBrowser url])"
    by (simp add: itemActions_def copyOffered_eq nonBlank_def)
  moreover have "nonBlank (basedOn d) \<longleftrightarrow> (\<exists>s. basedOn d = Some s \<and> trim s \<noteq> [])"
    by (cases "basedOn d") (simp_all add: nonBlank_def)
  then have "(\<forall>v. CopyToClipboard v \<in> set (actions (itemOf url cat d)) \<longleftrightarrow>
               v = basedOn d \<and> (\<exists>s. basedOn d = Some s \<and> trim s \<noteq> []))
        \<and> (\<forall>u. OpenInBrowser u \<in> set (actions (itemOf url cat d)) \<longleftrightarrow> u = url)"
    by (auto simp: itemOf_def)
  ultimately show ?thesis by (simp add: renderItem_eq)
qed

theorem copy_action_iff_nonblank_witness:
  "itemActions ''u'' \<lparr>category = ''Amps'', name = ''Brit 800'', basedOn = Some ''Marshall JCM800''\<rparr>
     = Inr [CopyToClipboard (Some ''Marshall JCM800''), OpenInBrowser ''u'']
   \<and> itemActions ''u'' \<lparr>category = ''Amps'', name = ''Twin'', basedOn = Some ''  ''\<rparr>
     = Inr [OpenInBrowser ''u'']"
proof -
  have "trim ''Marshall JCM800'' \<noteq> []" "trim ''  '' = []" by code_simp+
  then show ?thesis
    using copy_action_iff_nonblank [of "''u''"
        "\<lparr>category = ''Amps'', name = ''Brit 800'', basedOn = Some ''Marshall JCM800''\<rparr>"]
      copy_action_iff_nonblank [of "''u''"
        "\<lparr>category = ''Amps'', name = ''Twin'', basedOn = Some ''  ''\<rparr>"]
    by simp
qed

text \<open>
  Claim C9. A query that is not empty and consists of white space only is not treated as
  the empty query. Lower-casing leaves it unchanged, and a record matches exactly when the
  query occurs literally in its name, in its category, or in its \<open>basedOn\<close> when that
  is not blank. So it does not match every record (the empty query does).
\<close>

theorem whitespace_query_is_literal:
  assumes "q \<noteq> []" and "\<forall>c \<in> set q. isWhiteSpace c"
  shows "toLowerCase q = q
    \<and> matchesSearch q d =
        Inr (sublist q (name d) \<or> sublist q (category d)
             \<or> (case basedOn d of None \<Rightarrow> False | Some b \<Rightarrow> trim b \<noteq> [] \<and> sublist q b))
    \<and> matchesSearch q \<lparr>category = [], name = [], basedOn = None\<rparr> = Inr False
    \<and> matchesSearch [] \<lparr>category = [], name = [], basedOn = None\<rparr> = Inr True"
proof -
  note low = toLowerCase_whitespace [OF assms(2)]
  note sub = sublist_toLowerCase_whitespace [OF assms(2)]
  have m: "matchesSearch q d' =
        Inr (sublist q (name d') \<or> sublist q (category d')
             \<or> (case basedOn d' of None \<Rightarrow> False | Some b \<Rightarrow> trim b \<noteq> [] \<and> sublist q b))"
    for d'
    using assms(1)
    by (simp add: matchesSearch_eq recordMatches_def caseInsensitiveSubstring_def low sub
        split: option.splits)
  from assms(1) have "matchesSearch q \<lparr>category = [], name = [], basedOn = None\<rparr> = Inr False"
    by (simp add: m)
  moreover have "matchesSearch [] \<lparr>category = [], name = [], basedOn = None\<rparr> = Inr True"
    by (simp add: matchesSearch_eq recordMatches_def)
  ultimately show ?thesis using low m by simp
qed

theorem whitespace_query_is_literal_witness:
  "'' '' \<noteq> [] \<and> isWhiteSpace CHR '' ''
   \<and> matchesSearch '' '' \<lparr>category = ''Amps'', name = ''Twin'', basedOn = Some []\<rparr> = Inr False
   \<and> matchesSearch '' '' \<lparr>category = ''Amps'', name = ''Brit 800'', basedOn = Some []\<rparr>
       = Inr True"
proof -
  have ne: "'' '' \<noteq> []" by simp
  have ws: "\<forall>c \<in> set '' ''. isWhiteSpace c" by (simp add: isWhiteSpace_def)
  have "\<not> sublist '' '' ''Twin''" "\<not> sublist '' '' ''Amps''" "sublist '' '' ''Brit 800''"
    by code_simp+
  then show ?thesis
    using ne ws
      whitespace_query_is_literal [OF ne ws,
        of "\<lparr>category = ''Amps'', name = ''Twin'', basedOn = Some []\<rparr>"]
      whitespace_query_is_literal [OF ne ws,
        of "\<lparr>category = ''Amps'', name = ''Brit 800'', basedOn = Some []\<rparr>"]
    by simp
qed



end
